theory Spec2Isabelle
  imports Main "HOL-Library.Word" "HOL-Library.Monad_Syntax"
begin

unbundle bit_operations_syntax

section \<open>The n-Queens counter (\<^verbatim>\<open>src_C/n_queens_counter.c\<close>)\<close>

text \<open>
  The program counts the solutions of the n-queens problem by backtracking, column by
  column, and counts every queen it puts on the board on the way.  The board is one C
  struct with four arrays; the search mutates it in place.  Here the struct is a record
  that every function takes and returns, a C \<^verbatim>\<open>int\<close> is an \<^typ>\<open>int\<close>, the
  \<^verbatim>\<open>uint64_t\<close> counter is a \<^typ>\<open>64 word\<close>, and an array is a list whose every
  access is checked: an index outside the array, which C leaves undefined, makes the
  function return \<^term>\<open>None\<close>.  The integers of the model have no largest value.  On
  a board that \<^verbatim>\<open>initialize_board\<close> built, the indices and the column stay below
  twice the size, so they follow the C program for every size whose double fits an
  \<^verbatim>\<open>int\<close>; the solution counter follows it as long as it fits an \<^verbatim>\<open>int\<close>.
\<close>

subsection \<open>The board\<close>

record chess_board =
  n_size :: int
  queens :: "int list"
  column :: "int list"
  diagonal_up :: "int list"
  diagonal_down :: "int list"
  col_j :: int
  placements :: "64 word"
  solutions :: int

definition array_get :: "int list \<Rightarrow> int \<Rightarrow> int option" where
  "array_get a i = (if 0 \<le> i \<and> i < int (length a) then Some (a ! nat i) else None)"

definition array_set :: "int list \<Rightarrow> int \<Rightarrow> int \<Rightarrow> int list option" where
  "array_set a i v = (if 0 \<le> i \<and> i < int (length a) then Some (a[nat i := v]) else None)"

subsection \<open>Errors and construction\<close>

text \<open>
  \<^verbatim>\<open>allocation_error\<close> prints to the error stream and ends the process with
  \<^verbatim>\<open>EXIT_FAILURE\<close>.  The model returns the lines it prints, one list element for each
  \<^verbatim>\<open>fprintf\<close>.  The \<^verbatim>\<open>switch\<close> has no \<^verbatim>\<open>break\<close> after \<^verbatim>\<open>case 0\<close>, so
  control runs on into \<^verbatim>\<open>case 1\<close>; every other case ends with \<^verbatim>\<open>break\<close>.
\<close>

definition allocation_error :: "int \<Rightarrow> string list" where
  "allocation_error error_code =
     (if error_code = 0 then
        [''The number of queens must be greater than 0.\<newline>'',
         ''Failed to allocate memory for chess board.\<newline>'']
      else if error_code = 1 then [''Failed to allocate memory for chess board.\<newline>'']
      else if error_code = 2 then [''Failed to allocate memory for chess queens.\<newline>'']
      else if error_code = 3 then [''Failed to allocate memory for column attacks.\<newline>'']
      else if error_code = 4 then [''Failed to allocate memory for diagonal up attacks.\<newline>'']
      else if error_code = 5 then [''Failed to allocate memory for diagonal down attacks.\<newline>'']
      else [])"

text \<open>
  \<^verbatim>\<open>malloc\<close> belongs to the C library.  What it does in a run is a parameter: for the
  \<open>k\<close>-th call of the run (\<open>0\<close> is the struct, then \<^verbatim>\<open>queens\<close>, \<^verbatim>\<open>column\<close>,
  \<^verbatim>\<open>diagonal_up\<close>, \<^verbatim>\<open>diagonal_down\<close>), \<open>heap k\<close> is \<^term>\<open>None\<close> when the call
  returns \<^verbatim>\<open>NULL\<close>, and otherwise gives what each cell of the new block holds before
  the program writes it.
\<close>

type_synonym heap = "nat \<Rightarrow> (nat \<Rightarrow> int) option"

definition malloc :: "heap \<Rightarrow> nat \<Rightarrow> int \<Rightarrow> int list option" where
  "malloc heap k len = map_option (\<lambda>cell. map cell [0..<nat len]) (heap k)"

function initialize_cells :: "chess_board \<Rightarrow> int \<Rightarrow> int \<Rightarrow> chess_board option" where
  "initialize_cells board n_queens i =
     (if i < n_queens then do {
        q \<leftarrow> array_set (queens board) i 0;
        c \<leftarrow> array_set (column board) i 1;
        u \<leftarrow> array_set (diagonal_up board) i 1;
        d \<leftarrow> array_set (diagonal_down board) i 1;
        initialize_cells
          (board\<lparr>queens := q, column := c, diagonal_up := u, diagonal_down := d\<rparr>)
          n_queens (i + 1)
      } else Some board)"
  by pat_completeness auto
termination
  by (relation "measure (\<lambda>(board, n_queens, i). nat (n_queens - i))") auto

function initialize_remaining :: "chess_board \<Rightarrow> int \<Rightarrow> int \<Rightarrow> chess_board option" where
  "initialize_remaining board n_queens i =
     (if i < 2 * n_queens - 1 then do {
        u \<leftarrow> array_set (diagonal_up board) i 1;
        d \<leftarrow> array_set (diagonal_down board) i 1;
        initialize_remaining (board\<lparr>diagonal_up := u, diagonal_down := d\<rparr>) n_queens (i + 1)
      } else Some board)"
  by pat_completeness auto
termination
  by (relation "measure (\<lambda>(board, n_queens, i). nat (2 * n_queens - 1 - i))") auto

text \<open>
  \<^verbatim>\<open>initialize_board\<close> ends in one of three ways: the process has exited with the
  lines of \<^verbatim>\<open>allocation_error\<close> on the error stream (\<^term>\<open>Inl\<close>), the board is
  built (\<^term>\<open>Inr (Some board)\<close>), or an initialising write left its array
  (\<^term>\<open>Inr None\<close>).
\<close>

definition initialize_board :: "heap \<Rightarrow> int \<Rightarrow> string list + chess_board option" where
  "initialize_board heap n_queens =
     (if n_queens < 1 then Inl (allocation_error 0)
      else if heap 0 = None then Inl (allocation_error 1)
      else case malloc heap 1 n_queens of
        None \<Rightarrow> Inl (allocation_error 2)
      | Some q \<Rightarrow>
      (case malloc heap 2 n_queens of
        None \<Rightarrow> Inl (allocation_error 3)
      | Some c \<Rightarrow>
      (case malloc heap 3 (2 * n_queens - 1) of
        None \<Rightarrow> Inl (allocation_error 4)
      | Some u \<Rightarrow>
      (case malloc heap 4 (2 * n_queens - 1) of
        None \<Rightarrow> Inl (allocation_error 5)
      | Some d \<Rightarrow>
        Inr (do {
          board \<leftarrow> initialize_cells
            \<lparr>n_size = n_queens, queens = q, column = c, diagonal_up = u, diagonal_down = d,
             col_j = 0, placements = 0, solutions = 0\<rparr> n_queens 0;
          initialize_remaining board n_queens n_queens
        })))))"

subsection \<open>Conflict check, placement and removal\<close>

text \<open>The three reads of \<^verbatim>\<open>square_is_free\<close> are joined by C's bitwise \<^verbatim>\<open>&\<close>.\<close>

definition square_is_free :: "chess_board \<Rightarrow> int \<Rightarrow> int option" where
  "square_is_free board row_i = do {
     c \<leftarrow> array_get (column board) row_i;
     u \<leftarrow> array_get (diagonal_up board) ((n_size board - 1) + (col_j board - row_i));
     d \<leftarrow> array_get (diagonal_down board) (col_j board + row_i);
     Some ((c AND u) AND d)
   }"

definition set_queen :: "chess_board \<Rightarrow> int \<Rightarrow> chess_board option" where
  "set_queen board row_i = do {
     q \<leftarrow> array_set (queens board) (col_j board) row_i;
     c \<leftarrow> array_set (column board) row_i 0;
     u \<leftarrow> array_set (diagonal_up board) ((n_size board - 1) + (col_j board - row_i)) 0;
     d \<leftarrow> array_set (diagonal_down board) (col_j board + row_i) 0;
     Some (board\<lparr>queens := q, column := c, diagonal_up := u, diagonal_down := d,
                  col_j := col_j board + 1, placements := placements board + 1\<rparr>)
   }"

definition remove_queen :: "chess_board \<Rightarrow> int \<Rightarrow> chess_board option" where
  "remove_queen board row_i = do {
     let j = col_j board - 1;
     d \<leftarrow> array_set (diagonal_down board) (j + row_i) 1;
     u \<leftarrow> array_set (diagonal_up board) ((n_size board - 1) + (j - row_i)) 1;
     c \<leftarrow> array_set (column board) row_i 1;
     Some (board\<lparr>col_j := j, diagonal_down := d, diagonal_up := u, column := c\<rparr>)
   }"

subsection \<open>The search\<close>

text \<open>
  \<^verbatim>\<open>place_next_queen\<close> is a \<^verbatim>\<open>for\<close> loop over the rows whose body calls the function
  again.  \<open>place_next_queen_for board row_i\<close> is the loop from \<open>row_i\<close> on; it reads
  \<^verbatim>\<open>board->n_size\<close> at every test, as the C loop does.
\<close>

function place_next_queen :: "chess_board \<Rightarrow> chess_board option"
  and place_next_queen_for :: "chess_board \<Rightarrow> int \<Rightarrow> chess_board option" where
  "place_next_queen board = place_next_queen_for board 0"
| "place_next_queen_for board row_i =
     (if row_i < n_size board then do {
        free \<leftarrow> square_is_free board row_i;
        if free \<noteq> 0 then do {
          b1 \<leftarrow> set_queen board row_i;
          b2 \<leftarrow> (if col_j b1 = n_size b1
                 then Some (b1\<lparr>solutions := solutions b1 + 1\<rparr>)
                 else place_next_queen b1);
          b3 \<leftarrow> remove_queen b2 row_i;
          place_next_queen_for b3 (row_i + 1)
        } else place_next_queen_for board (row_i + 1)
      } else Some board)"
  by pat_completeness auto

text \<open>
  The loop goes on with the board that the inner call returns, so that the search
  terminates only because the inner call gives back a board of the same size, at the
  same column.  That much is proved first, for the arguments on which the function is
  known to be defined.
\<close>

definition same_frame :: "chess_board \<Rightarrow> chess_board \<Rightarrow> bool" where
  "same_frame b b' \<longleftrightarrow>
     n_size b' = n_size b \<and> col_j b' = col_j b \<and> length (queens b') = length (queens b)"

lemma set_queen_frame:
  assumes "set_queen b r = Some b1"
  shows "n_size b1 = n_size b" and "col_j b1 = col_j b + 1"
    and "length (queens b1) = length (queens b)"
    and "0 \<le> col_j b" and "col_j b < int (length (queens b))"
  using assms
  by (auto simp: set_queen_def array_set_def split: if_splits bind_splits)

lemma remove_queen_frame:
  assumes "remove_queen b r = Some b1"
  shows "n_size b1 = n_size b" and "col_j b1 = col_j b - 1" and "queens b1 = queens b"
  using assms
  by (auto simp: remove_queen_def array_set_def Let_def split: if_splits bind_splits)

lemma place_next_queen_dom_frame:
  "place_next_queen_place_next_queen_for_dom (Inl b) \<Longrightarrow>
     place_next_queen b = Some b' \<Longrightarrow> same_frame b b'"
  "place_next_queen_place_next_queen_for_dom (Inr (b, r)) \<Longrightarrow>
     place_next_queen_for b r = Some b' \<Longrightarrow> same_frame b b'"
proof (induct b and b r arbitrary: b' and b'
    rule: place_next_queen_place_next_queen_for.pinduct)
  case (1 board)
  then show ?case by (simp add: place_next_queen.psimps)
next
  case (2 board row_i)
  show ?case
  proof (cases "row_i < n_size board")
    case False
    with 2(1,5) show ?thesis by (simp add: place_next_queen_for.psimps same_frame_def)
  next
    case lt: True
    from 2(1,5) lt obtain free where free: "square_is_free board row_i = Some free"
      by (auto simp: place_next_queen_for.psimps split: bind_splits)
    show ?thesis
    proof (cases "free = 0")
      case True
      with 2(1,5) lt free have "place_next_queen_for board (row_i + 1) = Some b'"
        by (simp add: place_next_queen_for.psimps)
      with 2(4) [OF lt free] True show ?thesis by simp
    next
      case nz: False
      from 2(1,5) lt free nz obtain b1 b2 b3 where
        b1: "set_queen board row_i = Some b1" and
        b2: "(if col_j b1 = n_size b1 then Some (b1\<lparr>solutions := solutions b1 + 1\<rparr>)
              else place_next_queen b1) = Some b2" and
        b3: "remove_queen b2 row_i = Some b3" and
        r: "place_next_queen_for b3 (row_i + 1) = Some b'"
        by (auto simp: place_next_queen_for.psimps split: bind_splits)
      have f12: "same_frame b1 b2"
      proof (cases "col_j b1 = n_size b1")
        case True
        with b2 show ?thesis by (auto simp: same_frame_def)
      next
        case False
        with b2 2(2) [OF lt free nz b1] show ?thesis by simp
      qed
      have f3: "same_frame b3 b'"
        using 2(3) [OF lt free nz b1 b2 b3 r] .
      show ?thesis
        using set_queen_frame [OF b1] remove_queen_frame [OF b3] f12 f3
        by (simp add: same_frame_def)
    qed
  qed
qed

text \<open>
  Each inner call is one column further, and no call can pass the end of the
  \<^verbatim>\<open>queens\<close> array; each turn of the loop is one row further.
\<close>

termination place_next_queen
proof (relation "measures
    [\<lambda>x. case x of Inl b \<Rightarrow> nat (int (length (queens b)) - col_j b)
                 | Inr (b, r) \<Rightarrow> nat (int (length (queens b)) - col_j b),
     \<lambda>x. case x of Inl b \<Rightarrow> nat (n_size b) + 1 | Inr (b, r) \<Rightarrow> nat (n_size b - r)]",
    goal_cases)
  case 1
  show ?case by simp
next
  case (2 board)
  show ?case by simp
next
  case (3 board row_i free b1)
  then show ?case using set_queen_frame [OF 3(4)] by simp
next
  case (4 board row_i free b1 b2 b3)
  have "same_frame b1 b2"
  proof (cases "col_j b1 = n_size b1")
    case True
    with 4(5) show ?thesis by (auto simp: same_frame_def)
  next
    case False
    with 4(5,7) place_next_queen_dom_frame(1) show ?thesis by simp
  qed
  then show ?case
    using set_queen_frame [OF 4(4)] remove_queen_frame [OF 4(6)] 4(1)
    by (simp add: same_frame_def)
next
  case (5 board row_i free)
  then show ?case by simp
qed

subsection \<open>Output and the command line\<close>

text \<open>
  \<^verbatim>\<open>print_counts\<close> writes one line with \<^verbatim>\<open>%d\<close>, \<^verbatim>\<open>%PRIu64\<close> and \<^verbatim>\<open>%d\<close>.
\<close>

function print_unsigned :: "nat \<Rightarrow> string" where
  "print_unsigned n =
     (if n < 10 then [''0123456789'' ! n]
      else print_unsigned (n div 10) @ [''0123456789'' ! (n mod 10)])"
  by pat_completeness auto
termination
  by (relation "measure (\<lambda>n. n)") auto

definition print_d :: "int \<Rightarrow> string" where
  "print_d i = (if i < 0 then ''-'' @ print_unsigned (nat (- i)) else print_unsigned (nat i))"

definition print_u64 :: "64 word \<Rightarrow> string" where
  "print_u64 w = print_unsigned (unat w)"

definition print_counts :: "chess_board \<Rightarrow> string" where
  "print_counts board =
     ''The '' @ print_d (n_size board) @ ''-Queens problem '' @
     ''required '' @ print_u64 (placements board) @ '' queen placements '' @
     ''to find all '' @ print_d (solutions board) @ '' solutions\<newline>''"

text \<open>
  \<^verbatim>\<open>atoi\<close> belongs to the C library, where it is \<^verbatim>\<open>(int) strtol(s, NULL, 10)\<close>.
  \<^verbatim>\<open>strtol\<close> skips white space, reads an optional sign and then decimal digits up
  to the first character that is none, and gives 0 when there is no digit; a number
  outside the 64 bits of a \<^verbatim>\<open>long\<close> becomes \<^verbatim>\<open>LONG_MIN\<close> or \<^verbatim>\<open>LONG_MAX\<close>.  The
  conversion to \<^verbatim>\<open>int\<close> keeps the low 32 bits, read as two's complement.
\<close>

definition isspace :: "char \<Rightarrow> bool" where
  "isspace c \<longleftrightarrow> c \<in> set [CHR '' '', CHR 0x09, CHR 0x0A, CHR 0x0B, CHR 0x0C, CHR 0x0D]"

definition isdigit :: "char \<Rightarrow> bool" where
  "isdigit c \<longleftrightarrow> c \<in> set ''0123456789''"

fun strtol_digits :: "int \<Rightarrow> string \<Rightarrow> int" where
  "strtol_digits acc [] = acc"
| "strtol_digits acc (c # cs) =
     (if isdigit c then strtol_digits (10 * acc + (of_char c - 48)) cs else acc)"

definition LONG_MAX :: int where
  "LONG_MAX = 2 ^ 63 - 1"

definition LONG_MIN :: int where
  "LONG_MIN = - (2 ^ 63)"

definition strtol :: "string \<Rightarrow> int" where
  "strtol s =
     (let t = dropWhile isspace s in
      if t \<noteq> [] \<and> hd t = CHR ''-'' then max LONG_MIN (- strtol_digits 0 (tl t))
      else if t \<noteq> [] \<and> hd t = CHR ''+'' then min LONG_MAX (strtol_digits 0 (tl t))
      else min LONG_MAX (strtol_digits 0 t))"

definition atoi :: "string \<Rightarrow> int" where
  "atoi s = sint (word_of_int (strtol s) :: 32 word)"

definition EXIT_SUCCESS :: int where
  "EXIT_SUCCESS = 0"

definition EXIT_FAILURE :: int where
  "EXIT_FAILURE = 1"

text \<open>
  A run of the program that ends: what it wrote to each stream, one list element for
  each \<^verbatim>\<open>fprintf\<close>, and its exit status.
\<close>

record process =
  stdout :: "string list"
  stderr :: "string list"
  exit_status :: int

text \<open>
  \<open>argv\<close> is the argument vector with the program name first, so \<^verbatim>\<open>argc\<close> is its
  length.  With an empty vector \<^verbatim>\<open>argv[1]\<close> lies beyond the vector and the run has
  no defined result.  \<^verbatim>\<open>smash_board\<close> only frees the board and shows in no stream.
\<close>

definition main :: "heap \<Rightarrow> string list \<Rightarrow> process option" where
  "main heap argv =
     (if argv = [] then None
      else case (if length argv = 1 then initialize_board heap 4
                 else initialize_board heap (atoi (argv ! 1))) of
        Inl messages \<Rightarrow>
          Some \<lparr>stdout = [], stderr = messages, exit_status = EXIT_FAILURE\<rparr>
      | Inr None \<Rightarrow> None
      | Inr (Some board) \<Rightarrow> do {
          board' \<leftarrow> place_next_queen board;
          Some \<lparr>stdout = [print_counts board'], stderr = [], exit_status = EXIT_SUCCESS\<rparr>
        })"

text \<open>
  The specification's \<open>solve\<close> is what \<^verbatim>\<open>main\<close> does up to the printing: build the
  board, search, and read the two counters.
\<close>

definition solve :: "heap \<Rightarrow> int \<Rightarrow> string list + (64 word \<times> int) option" where
  "solve heap n_queens =
     (case initialize_board heap n_queens of
        Inl messages \<Rightarrow> Inl messages
      | Inr built \<Rightarrow> Inr (do {
          board \<leftarrow> built;
          board' \<leftarrow> place_next_queen board;
          Some (placements board', solutions board')
        }))"

subsection \<open>Notions used in the statements\<close>

text \<open>A run in which each of the five \<^verbatim>\<open>malloc\<close> calls gets its block.\<close>

definition all_allocated :: "heap \<Rightarrow> bool" where
  "all_allocated heap \<longleftrightarrow>
     heap 0 \<noteq> None \<and> heap 1 \<noteq> None \<and> heap 2 \<noteq> None \<and> heap 3 \<noteq> None \<and> heap 4 \<noteq> None"

text \<open>Two such runs, whose fresh blocks hold different values.\<close>

definition zero_heap :: heap where
  "zero_heap k = Some (\<lambda>i. 0)"

definition junk_heap :: heap where
  "junk_heap k = Some (\<lambda>i. 7 * int i - int k)"

text \<open>The board with no queen on it: every row and diagonal free (1), all counters 0.\<close>

definition empty_board :: "int \<Rightarrow> chess_board" where
  "empty_board n =
     \<lparr>n_size = n, queens = replicate (nat n) 0, column = replicate (nat n) 1,
      diagonal_up = replicate (nat (2 * n - 1)) 1,
      diagonal_down = replicate (nat (2 * n - 1)) 1,
      col_j = 0, placements = 0, solutions = 0\<rparr>"

text \<open>
  A board as the search meets it at the head of its loop: the arrays have the lengths
  that \<^verbatim>\<open>initialize_board\<close> gave them, their cells hold 0 (taken) or 1 (free), and the
  current column is on the board.
\<close>

definition valid_board :: "chess_board \<Rightarrow> bool" where
  "valid_board b \<longleftrightarrow>
     1 \<le> n_size b \<and>
     length (queens b) = nat (n_size b) \<and>
     length (column b) = nat (n_size b) \<and>
     length (diagonal_up b) = nat (2 * n_size b - 1) \<and>
     length (diagonal_down b) = nat (2 * n_size b - 1) \<and>
     0 \<le> col_j b \<and> col_j b < n_size b \<and>
     set (column b) \<subseteq> {0, 1} \<and>
     set (diagonal_up b) \<subseteq> {0, 1} \<and>
     set (diagonal_down b) \<subseteq> {0, 1}"

text \<open>What the search gives back of the board it was given.\<close>

definition restored :: "chess_board \<Rightarrow> chess_board \<Rightarrow> bool" where
  "restored b b' \<longleftrightarrow>
     n_size b' = n_size b \<and> col_j b' = col_j b \<and>
     column b' = column b \<and> diagonal_up b' = diagonal_up b \<and>
     diagonal_down b' = diagonal_down b \<and> length (queens b') = length (queens b)"

text \<open>
  What the loops of \<^verbatim>\<open>initialize_board\<close> make of an array: the cells from \<open>i\<close> up
  to \<open>n\<close> hold \<open>v\<close>, the others are as before.
\<close>

definition fill :: "int list \<Rightarrow> int \<Rightarrow> int \<Rightarrow> int \<Rightarrow> int list" where
  "fill xs i n v = take (nat i) xs @ replicate (nat (n - i)) v @ drop (nat n) xs"

text \<open>The two counters at the end of the search on the empty board of size \<open>n\<close>.\<close>

definition search_counts :: "int \<Rightarrow> (64 word \<times> int) option" where
  "search_counts n = do {
     board' \<leftarrow> place_next_queen (empty_board n);
     Some (placements board', solutions board')
   }"

section \<open>Properties\<close>

text \<open>
  The recursive equations are used one step at a time, by \<open>subst\<close>, and not as
  simplification rules.
\<close>

declare initialize_cells.simps [simp del]
declare initialize_remaining.simps [simp del]
declare place_next_queen.simps [simp del]
declare place_next_queen_for.simps [simp del]

subsection \<open>Array accesses and the loops of \<^verbatim>\<open>initialize_board\<close>\<close>


lemma fill_step:
  assumes "i < n" "n \<le> length xs"
  shows "take (Suc i) (xs[i := v]) @ replicate (n - Suc i) v @ drop n (xs[i := v])
       = take i xs @ replicate (n - i) v @ drop n xs"
proof -
  from assms have "i < length xs" by simp
  then have "take (Suc i) (xs[i := v]) = take i xs @ [v]"
    by (simp add: take_Suc_conv_app_nth)
  moreover from assms have "drop n (xs[i := v]) = drop n xs" by simp
  moreover from assms have "replicate (n - i) v = v # replicate (n - Suc i) v"
    by (simp add: Suc_diff_Suc flip: replicate_Suc)
  ultimately show ?thesis by simp
qed

lemma array_set_Some:
  "0 \<le> i \<Longrightarrow> i < int (length a) \<Longrightarrow> array_set a i v = Some (a[nat i := v])"
  by (simp add: array_set_def)

lemma array_get_Some:
  "0 \<le> i \<Longrightarrow> i < int (length a) \<Longrightarrow> array_get a i = Some (a ! nat i)"
  by (simp add: array_get_def)


lemma fill_update:
  assumes "0 \<le> i" "i < n" "n \<le> int (length xs)"
  shows "fill (xs[nat i := v]) (i + 1) n v = fill xs i n v"
proof -
  have "nat (i + 1) = Suc (nat i)" "nat (n - (i + 1)) = nat n - Suc (nat i)"
    "nat (n - i) = nat n - nat i"
    using assms by auto
  moreover have "nat i < nat n" "nat n \<le> length xs" using assms by auto
  ultimately show ?thesis
    using fill_step [of "nat i" "nat n" xs v] by (simp add: fill_def)
qed

lemma fill_length [simp]:
  "0 \<le> i \<Longrightarrow> i \<le> n \<Longrightarrow> n \<le> int (length xs) \<Longrightarrow> length (fill xs i n v) = length xs"
  by (auto simp: fill_def)

lemma initialize_cells_fill:
  assumes "0 \<le> i" "i \<le> n" "n \<le> int (length (queens b))" "n \<le> int (length (column b))"
    "n \<le> int (length (diagonal_up b))" "n \<le> int (length (diagonal_down b))"
  shows "initialize_cells b n i =
     Some (b\<lparr>queens := fill (queens b) i n 0, column := fill (column b) i n 1,
             diagonal_up := fill (diagonal_up b) i n 1,
             diagonal_down := fill (diagonal_down b) i n 1\<rparr>)"
  using assms
proof (induction b n i rule: initialize_cells.induct)
  case (1 board n_queens i)
  show ?case
  proof (cases "i < n_queens")
    case False
    with 1(3) have "i = n_queens" by simp
    then show ?thesis
      by (subst initialize_cells.simps) (simp add: fill_def)
  next
    case True
    let ?b = "board\<lparr>queens := (queens board)[nat i := 0], column := (column board)[nat i := 1],
       diagonal_up := (diagonal_up board)[nat i := 1],
       diagonal_down := (diagonal_down board)[nat i := 1]\<rparr>"
    have step: "initialize_cells board n_queens i = initialize_cells ?b n_queens (i + 1)"
      using True 1(2-)
      by (subst initialize_cells.simps) (simp add: array_set_Some)
    have "initialize_cells ?b n_queens (i + 1) =
      Some (?b\<lparr>queens := fill (queens ?b) (i + 1) n_queens 0,
        column := fill (column ?b) (i + 1) n_queens 1,
        diagonal_up := fill (diagonal_up ?b) (i + 1) n_queens 1,
        diagonal_down := fill (diagonal_down ?b) (i + 1) n_queens 1\<rparr>)"
      using True 1(2-)
      by (intro "1.IH" [OF True]) (simp_all add: array_set_Some)
    then show ?thesis
      using step True 1(2-) by (simp add: fill_update)
  qed
qed

lemma initialize_remaining_fill:
  assumes "0 \<le> i" "i \<le> 2 * n - 1" "2 * n - 1 \<le> int (length (diagonal_up b))"
    "2 * n - 1 \<le> int (length (diagonal_down b))"
  shows "initialize_remaining b n i =
     Some (b\<lparr>diagonal_up := fill (diagonal_up b) i (2 * n - 1) 1,
             diagonal_down := fill (diagonal_down b) i (2 * n - 1) 1\<rparr>)"
  using assms
proof (induction b n i rule: initialize_remaining.induct)
  case (1 board n_queens i)
  show ?case
  proof (cases "i < 2 * n_queens - 1")
    case False
    with 1(3) have "i = 2 * n_queens - 1" by simp
    then show ?thesis
      by (subst initialize_remaining.simps) (simp add: fill_def)
  next
    case True
    let ?b = "board\<lparr>diagonal_up := (diagonal_up board)[nat i := 1],
       diagonal_down := (diagonal_down board)[nat i := 1]\<rparr>"
    have step: "initialize_remaining board n_queens i = initialize_remaining ?b n_queens (i + 1)"
      using True 1(2-)
      by (subst initialize_remaining.simps) (simp add: array_set_Some)
    have "initialize_remaining ?b n_queens (i + 1) =
      Some (?b\<lparr>diagonal_up := fill (diagonal_up ?b) (i + 1) (2 * n_queens - 1) 1,
        diagonal_down := fill (diagonal_down ?b) (i + 1) (2 * n_queens - 1) 1\<rparr>)"
      using True 1(2-)
      by (intro "1.IH" [OF True]) (simp_all add: array_set_Some)
    then show ?thesis
      using step True 1(2-) by (simp add: fill_update)
  qed
qed

lemma malloc_Some:
  "heap k = Some cell \<Longrightarrow> malloc heap k len = Some (map cell [0..<nat len])"
  by (simp add: malloc_def)

lemma initialize_board_built:
  assumes "1 \<le> n" "all_allocated heap"
  shows "initialize_board heap n = Inr (Some (empty_board n))"
proof -
  from assms(2) obtain s q c u d where
    h: "heap 0 = Some s" "heap 1 = Some q" "heap 2 = Some c" "heap 3 = Some u" "heap 4 = Some d"
    by (auto simp: all_allocated_def)
  let ?q = "map q [0..<nat n]" and ?c = "map c [0..<nat n]"
  let ?u = "map u [0..<nat (2 * n - 1)]" and ?d = "map d [0..<nat (2 * n - 1)]"
  let ?b0 = "\<lparr>n_size = n, queens = ?q, column = ?c, diagonal_up = ?u, diagonal_down = ?d,
             col_j = 0, placements = 0, solutions = 0\<rparr>"
  let ?b1 = "\<lparr>n_size = n, queens = replicate (nat n) 0, column = replicate (nat n) 1,
             diagonal_up = fill ?u 0 n 1, diagonal_down = fill ?d 0 n 1,
             col_j = 0, placements = 0, solutions = 0\<rparr>"
  have l: "fill ?q 0 n 0 = replicate (nat n) 0" "fill ?c 0 n 1 = replicate (nat n) 1"
    using assms(1) by (simp_all add: fill_def)
  have c1: "initialize_cells ?b0 n 0 = Some ?b1"
    using assms(1) initialize_cells_fill [of 0 n ?b0] l by simp
  have m: "fill (fill xs 0 n 1) n (2 * n - 1) 1 = replicate (nat (2 * n - 1)) 1"
    if "length xs = nat (2 * n - 1)" for xs
  proof -
    have "nat (2 * n - 1) = nat n + nat (n - 1)" using assms(1) by simp
    then show ?thesis
      using assms(1) that by (simp add: fill_def replicate_add)
  qed
  have c2: "initialize_remaining ?b1 n n = Some (empty_board n)"
    using assms(1) initialize_remaining_fill [of n n ?b1] m
    by (simp add: empty_board_def)
  show ?thesis
    using assms(1) h
    by (simp add: initialize_board_def malloc_Some c1 c2)
qed

lemma initialize_board_Some:
  "initialize_board heap n = Inr (Some b) \<longleftrightarrow>
     1 \<le> n \<and> all_allocated heap \<and> b = empty_board n"
proof
  assume a: "initialize_board heap n = Inr (Some b)"
  then have "1 \<le> n" "all_allocated heap"
    by (auto simp: initialize_board_def all_allocated_def malloc_def
        split: if_splits option.splits)
  with a initialize_board_built [of n heap] show "1 \<le> n \<and> all_allocated heap \<and> b = empty_board n"
    by simp
next
  assume "1 \<le> n \<and> all_allocated heap \<and> b = empty_board n"
  then show "initialize_board heap n = Inr (Some b)"
    by (simp add: initialize_board_built)
qed

subsection \<open>The search gives back the board it was given\<close>

lemma and_free_iff:
  assumes "x \<in> {0, 1}" "y \<in> {0, 1}" "z \<in> {0, 1}"
  shows "(x AND y) AND z \<noteq> (0::int) \<longleftrightarrow> x = 1 \<and> y = 1 \<and> z = 1"
  using assms by auto

lemma valid_board_in_range:
  assumes "valid_board b" "0 \<le> r" "r < n_size b"
  shows "r < int (length (column b))"
    and "0 \<le> (n_size b - 1) + (col_j b - r)"
    and "(n_size b - 1) + (col_j b - r) < int (length (diagonal_up b))"
    and "0 \<le> col_j b + r"
    and "col_j b + r < int (length (diagonal_down b))"
    and "0 \<le> col_j b" and "col_j b < int (length (queens b))"
  using assms by (auto simp: valid_board_def)

lemma valid_board_cells:
  assumes "valid_board b" "0 \<le> r" "r < n_size b"
  shows "column b ! nat r \<in> {0, 1}"
    and "diagonal_up b ! nat ((n_size b - 1) + (col_j b - r)) \<in> {0, 1}"
    and "diagonal_down b ! nat (col_j b + r) \<in> {0, 1}"
proof -
  have "nat r < length (column b)"
    "nat ((n_size b - 1) + (col_j b - r)) < length (diagonal_up b)"
    "nat (col_j b + r) < length (diagonal_down b)"
    using assms by (auto simp: valid_board_def)
  then have "column b ! nat r \<in> set (column b)"
    "diagonal_up b ! nat ((n_size b - 1) + (col_j b - r)) \<in> set (diagonal_up b)"
    "diagonal_down b ! nat (col_j b + r) \<in> set (diagonal_down b)"
    by (simp_all only: nth_mem)
  with assms(1) show "column b ! nat r \<in> {0, 1}"
    and "diagonal_up b ! nat ((n_size b - 1) + (col_j b - r)) \<in> {0, 1}"
    and "diagonal_down b ! nat (col_j b + r) \<in> {0, 1}"
    unfolding valid_board_def by blast+
qed

lemma square_is_free_valid:
  assumes "valid_board b" "0 \<le> r" "r < n_size b"
  shows "square_is_free b r =
     Some ((column b ! nat r AND diagonal_up b ! nat ((n_size b - 1) + (col_j b - r)))
           AND diagonal_down b ! nat (col_j b + r))"
  using valid_board_in_range [OF assms] assms(2)
  by (simp add: square_is_free_def array_get_Some)

lemma set_queen_valid:
  assumes "valid_board b" "0 \<le> r" "r < n_size b"
  shows "set_queen b r =
     Some (b\<lparr>queens := (queens b)[nat (col_j b) := r],
             column := (column b)[nat r := 0],
             diagonal_up := (diagonal_up b)[nat ((n_size b - 1) + (col_j b - r)) := 0],
             diagonal_down := (diagonal_down b)[nat (col_j b + r) := 0],
             col_j := col_j b + 1, placements := placements b + 1\<rparr>)"
  using valid_board_in_range [OF assms] assms(2)
  by (simp add: set_queen_def array_set_Some)

lemma remove_queen_restores:
  assumes v: "valid_board b" "0 \<le> r" "r < n_size b"
    and free: "column b ! nat r = 1"
      "diagonal_up b ! nat ((n_size b - 1) + (col_j b - r)) = 1"
      "diagonal_down b ! nat (col_j b + r) = 1"
    and b1: "set_queen b r = Some b1"
    and b2: "restored b1 b2"
  shows "remove_queen b2 r =
     Some (b2\<lparr>col_j := col_j b, diagonal_down := diagonal_down b,
              diagonal_up := diagonal_up b, column := column b\<rparr>)"
proof -
  note r = valid_board_in_range [OF v]
  from b1 have b1_eq: "b1 = b\<lparr>queens := (queens b)[nat (col_j b) := r],
             column := (column b)[nat r := 0],
             diagonal_up := (diagonal_up b)[nat ((n_size b - 1) + (col_j b - r)) := 0],
             diagonal_down := (diagonal_down b)[nat (col_j b + r) := 0],
             col_j := col_j b + 1, placements := placements b + 1\<rparr>"
    by (simp add: set_queen_valid [OF v])
  have f2: "n_size b2 = n_size b" "col_j b2 = col_j b + 1"
    "column b2 = (column b)[nat r := 0]"
    "diagonal_up b2 = (diagonal_up b)[nat ((n_size b - 1) + (col_j b - r)) := 0]"
    "diagonal_down b2 = (diagonal_down b)[nat (col_j b + r) := 0]"
    using b2 by (simp_all add: restored_def b1_eq)
  have same: "xs[i := 1] = xs" if "xs ! i = (1::int)" for xs i
    using that by (metis list_update_id)
  show ?thesis
    using r v(2) free
    by (simp add: remove_queen_def f2 array_set_Some same Let_def)
qed

lemma restored_valid: "valid_board b \<Longrightarrow> restored b b' \<Longrightarrow> valid_board b'"
  by (simp add: valid_board_def restored_def)

lemma restored_trans: "restored a b \<Longrightarrow> restored b c \<Longrightarrow> restored a c"
  by (simp add: restored_def)

lemma place_next_queen_restores:
  "valid_board b \<Longrightarrow> \<exists>b'. place_next_queen b = Some b' \<and> restored b b'"
  "valid_board b \<Longrightarrow> 0 \<le> r \<Longrightarrow>
     \<exists>b'. place_next_queen_for b r = Some b' \<and> restored b b'"
proof (induct b and b r rule: place_next_queen_place_next_queen_for.induct)
  case (1 board)
  then show ?case by (simp add: place_next_queen.simps)
next
  case (2 board row_i)
  note v = \<open>valid_board board\<close> and r0 = \<open>0 \<le> row_i\<close>
  show ?case
  proof (cases "row_i < n_size board")
    case False
    then show ?thesis
      by (subst place_next_queen_for.simps) (simp add: restored_def)
  next
    case lt: True
    define free where "free = (column board ! nat row_i AND
        diagonal_up board ! nat ((n_size board - 1) + (col_j board - row_i)))
        AND diagonal_down board ! nat (col_j board + row_i)"
    have sq: "square_is_free board row_i = Some free"
      unfolding free_def by (rule square_is_free_valid [OF v r0 lt])
    show ?thesis
    proof (cases "free = 0")
      case True
      from 2(3) [OF lt sq _ v] True r0
      obtain b' where "place_next_queen_for board (row_i + 1) = Some b'" "restored board b'"
        by auto
      then show ?thesis
        using lt sq True by (subst place_next_queen_for.simps) simp
    next
      case nz: False
      then have cells: "column board ! nat row_i = 1"
        "diagonal_up board ! nat ((n_size board - 1) + (col_j board - row_i)) = 1"
        "diagonal_down board ! nat (col_j board + row_i) = 1"
        using and_free_iff [OF valid_board_cells [OF v r0 lt]] by (simp_all add: free_def)
      define b1 where "b1 = board\<lparr>queens := (queens board)[nat (col_j board) := row_i],
             column := (column board)[nat row_i := 0],
             diagonal_up := (diagonal_up board)[nat ((n_size board - 1) + (col_j board - row_i)) := 0],
             diagonal_down := (diagonal_down board)[nat (col_j board + row_i) := 0],
             col_j := col_j board + 1, placements := placements board + 1\<rparr>"
      have s1: "set_queen board row_i = Some b1"
        unfolding b1_def by (rule set_queen_valid [OF v r0 lt])
      have "\<exists>b2. (if col_j b1 = n_size b1 then Some (b1\<lparr>solutions := solutions b1 + 1\<rparr>)
              else place_next_queen b1) = Some b2 \<and> restored b1 b2"
      proof (cases "col_j b1 = n_size b1")
        case True
        then show ?thesis by (simp add: restored_def)
      next
        case False
        have "valid_board b1"
          using v False
          by (auto simp: valid_board_def b1_def dest!: set_update_subset_insert [THEN subsetD])
        from 2(1) [OF lt sq nz s1 False this] False show ?thesis by simp
      qed
      then obtain b2 where
        b2: "(if col_j b1 = n_size b1 then Some (b1\<lparr>solutions := solutions b1 + 1\<rparr>)
              else place_next_queen b1) = Some b2" and r12: "restored b1 b2"
        by blast
      define b3 where "b3 = b2\<lparr>col_j := col_j board, diagonal_down := diagonal_down board,
              diagonal_up := diagonal_up board, column := column board\<rparr>"
      have s3: "remove_queen b2 row_i = Some b3"
        unfolding b3_def by (rule remove_queen_restores [OF v r0 lt cells s1 r12])
      have r3: "restored board b3"
        using r12 by (simp add: restored_def b3_def b1_def)
      then have "valid_board b3" using v by (rule restored_valid [rotated])
      from 2(2) [OF lt sq nz s1 b2 s3 this] r0
      obtain b' where b': "place_next_queen_for b3 (row_i + 1) = Some b'" "restored b3 b'"
        by auto
      have "place_next_queen_for board row_i = Some b'"
        using lt sq nz s1 b2 s3 b'(1)
        by (subst place_next_queen_for.simps) simp
      moreover have "restored board b'"
        using r3 b'(2) by (rule restored_trans)
      ultimately show ?thesis by blast
    qed
  qed
qed

lemma empty_board_valid: "1 \<le> n \<Longrightarrow> valid_board (empty_board n)"
  by (auto simp: valid_board_def empty_board_def)

lemma solve_built:
  "1 \<le> n \<Longrightarrow> all_allocated heap \<Longrightarrow> solve heap n = Inr (search_counts n)"
  by (simp add: solve_def initialize_board_built search_counts_def)

lemma search_counts_Some:
  assumes "1 \<le> n"
  shows "\<exists>c. search_counts n = Some c"
proof -
  from place_next_queen_restores(1) [OF empty_board_valid [OF assms]]
  obtain b' where "place_next_queen (empty_board n) = Some b'" by blast
  then show ?thesis by (simp add: search_counts_def)
qed

subsection \<open>Runs on small boards\<close>

lemma atoi_4: "atoi ''4'' = 4"
  by (simp add: atoi_def strtol_def LONG_MAX_def isspace_def isdigit_def)

lemma atoi_0: "atoi ''0'' = 0"
  by (simp add: atoi_def strtol_def LONG_MAX_def isspace_def isdigit_def)

lemma atoi_abc: "atoi ''abc'' = 0"
  by (simp add: atoi_def strtol_def LONG_MAX_def isspace_def isdigit_def)

text \<open>
  The result of \<^verbatim>\<open>atoi\<close> is an \<^verbatim>\<open>int\<close>, and a number that is none is cut to one:
  the text \<^verbatim>\<open>-4294967292\<close> is read as 4, and \<^verbatim>\<open>2147483648\<close> as \<^verbatim>\<open>INT_MIN\<close>.
\<close>

lemma atoi_range: "- (2 ^ 31) \<le> atoi s \<and> atoi s < 2 ^ 31"
  using sint_ge [of "word_of_int (strtol s) :: 32 word"]
    sint_lt [of "word_of_int (strtol s) :: 32 word"]
  by (simp add: atoi_def)

lemma atoi_cut_to_4: "atoi ''-4294967292'' = 4"
  by (simp add: atoi_def strtol_def LONG_MIN_def isspace_def isdigit_def)

lemma atoi_cut_to_INT_MIN: "atoi ''2147483648'' = - (2 ^ 31)"
  by (simp add: atoi_def strtol_def LONG_MAX_def isspace_def isdigit_def)

lemma zero_heap_allocated: "all_allocated zero_heap"
  by (simp add: all_allocated_def zero_heap_def)

lemma junk_heap_allocated: "all_allocated junk_heap"
  by (simp add: all_allocated_def junk_heap_def)

lemma search_counts_1: "search_counts 1 = Some (1, 1)"
  by code_simp

lemma search_counts_2: "search_counts 2 = Some (2, 0)"
  by code_simp

lemma search_counts_3: "search_counts 3 = Some (5, 0)"
  by code_simp

lemma search_counts_4: "search_counts 4 = Some (16, 2)"
  by code_simp

lemma four_queens_line:
  "map_option print_counts (place_next_queen (empty_board 4)) =
     Some ''The 4-Queens problem required 16 queen placements to find all 2 solutions\<newline>''"
  by code_simp

lemma main_size_four:
  assumes "all_allocated heap" and "length argv = 1 \<or> (argv \<noteq> [] \<and> atoi (argv ! 1) = 4)"
  shows "main heap argv =
     Some \<lparr>stdout = [''The 4-Queens problem required 16 queen placements to find all 2 solutions\<newline>''],
           stderr = [], exit_status = EXIT_SUCCESS\<rparr>"
proof -
  from four_queens_line obtain b' where
    "place_next_queen (empty_board 4) = Some b'"
    "print_counts b' = ''The 4-Queens problem required 16 queen placements to find all 2 solutions\<newline>''"
    by auto
  moreover have "initialize_board heap 4 = Inr (Some (empty_board 4))"
    using assms(1) by (simp add: initialize_board_built)
  ultimately show ?thesis
    using assms(2) by (auto simp: main_def)
qed

text \<open>
  So the run of \<^verbatim>\<open>n_queens_counter -4294967292\<close> is a run on 4 queens.
\<close>

lemma main_cut_argument:
  assumes "all_allocated heap"
  shows "main heap [prog, ''-4294967292''] =
     Some \<lparr>stdout = [''The 4-Queens problem required 16 queen placements to find all 2 solutions\<newline>''],
           stderr = [], exit_status = EXIT_SUCCESS\<rparr>"
  using main_size_four [OF assms, of "[prog, ''-4294967292'']"]
  by (simp add: atoi_cut_to_4)

lemma search_counts_5: "search_counts 5 = Some (53, 10)"
  by code_simp

lemma search_counts_6: "search_counts 6 = Some (152, 4)"
  by code_simp

lemma search_counts_7: "search_counts 7 = Some (551, 40)"
  by code_simp

lemma search_counts_8: "search_counts 8 = Some (2056, 92)"
  by code_simp

section \<open>The claims\<close>

text \<open>
  Claim C1.  For the sizes 1 to 8, a run in which every allocation succeeds ends the
  search with the solution counts 1, 0, 0, 2, 10, 4, 40 and 92.  The first component of
  each pair is the placement counter of the same run.
\<close>

theorem solution_counts_table:
  assumes "all_allocated heap"
  shows "solve heap 1 = Inr (Some (1, 1)) \<and>
         solve heap 2 = Inr (Some (2, 0)) \<and>
         solve heap 3 = Inr (Some (5, 0)) \<and>
         solve heap 4 = Inr (Some (16, 2)) \<and>
         solve heap 5 = Inr (Some (53, 10)) \<and>
         solve heap 6 = Inr (Some (152, 4)) \<and>
         solve heap 7 = Inr (Some (551, 40)) \<and>
         solve heap 8 = Inr (Some (2056, 92))"
  using assms
  by (simp add: solve_built search_counts_1 search_counts_2 search_counts_3 search_counts_4
      search_counts_5 search_counts_6 search_counts_7 search_counts_8)

theorem solution_counts_table_witness:
  "all_allocated junk_heap \<and>
   solve junk_heap 1 = Inr (Some (1, 1)) \<and>
   solve junk_heap 2 = Inr (Some (2, 0)) \<and>
   solve junk_heap 3 = Inr (Some (5, 0)) \<and>
   solve junk_heap 4 = Inr (Some (16, 2)) \<and>
   solve junk_heap 5 = Inr (Some (53, 10)) \<and>
   solve junk_heap 6 = Inr (Some (152, 4)) \<and>
   solve junk_heap 7 = Inr (Some (551, 40)) \<and>
   solve junk_heap 8 = Inr (Some (2056, 92))"
proof -
  have h: "all_allocated junk_heap"
    by (simp add: all_allocated_def junk_heap_def)
  from solution_counts_table [OF h] h show ?thesis by simp
qed

text \<open>
  Claim C2.  For every size of at least 1, in a run in which every allocation succeeds,
  the board is built, the search on it returns, and the board that it returns is at
  column 0 with every cell of the column array and of both diagonal arrays free (1)
  again.
\<close>

theorem search_restores_board:
  assumes "1 \<le> n" and "all_allocated heap"
  shows "\<exists>b b'. initialize_board heap n = Inr (Some b) \<and> place_next_queen b = Some b' \<and>
           col_j b' = 0 \<and>
           column b' = replicate (nat n) 1 \<and>
           diagonal_up b' = replicate (nat (2 * n - 1)) 1 \<and>
           diagonal_down b' = replicate (nat (2 * n - 1)) 1"
proof -
  have built: "initialize_board heap n = Inr (Some (empty_board n))"
    using assms by (rule initialize_board_built)
  from place_next_queen_restores(1) [OF empty_board_valid [OF assms(1)]]
  obtain b' where b': "place_next_queen (empty_board n) = Some b'"
    "restored (empty_board n) b'"
    by blast
  from b'(2) have "col_j b' = 0" "column b' = replicate (nat n) 1"
    "diagonal_up b' = replicate (nat (2 * n - 1)) 1"
    "diagonal_down b' = replicate (nat (2 * n - 1)) 1"
    by (simp_all add: restored_def empty_board_def)
  with built b'(1) show ?thesis by blast
qed

theorem search_restores_board_witness:
  "(1::int) \<le> 3 \<and> all_allocated junk_heap \<and>
   (\<exists>b b'. initialize_board junk_heap 3 = Inr (Some b) \<and> place_next_queen b = Some b' \<and>
      col_j b' = 0 \<and> column b' = [1, 1, 1] \<and>
      diagonal_up b' = [1, 1, 1, 1, 1] \<and> diagonal_down b' = [1, 1, 1, 1, 1])"
proof -
  have h: "all_allocated junk_heap"
    by (simp add: all_allocated_def junk_heap_def)
  have "replicate (nat 3) (1::int) = [1, 1, 1]"
    "replicate (nat (2 * 3 - 1)) (1::int) = [1, 1, 1, 1, 1]"
    by (simp_all add: numeral_eq_Suc)
  with search_restores_board [of 3 junk_heap] h show ?thesis by simp
qed

text \<open>
  Claim C3.  The claim asks for one line on the error stream when the size is below 1.
  The program writes two: \<^verbatim>\<open>allocation_error(0)\<close> prints the line about the number of
  queens and then, for want of a \<^verbatim>\<open>break\<close>, the line of \<^verbatim>\<open>case 1\<close> about the
  board's memory.  The run below is \<^verbatim>\<open>n_queens_counter 0\<close>; nothing goes to the
  standard output and the exit status is \<^verbatim>\<open>EXIT_FAILURE\<close>, as the claim says.
\<close>

theorem invalid_size_prints_two_messages:
  "main heap [prog, ''0''] =
     Some \<lparr>stdout = [],
           stderr = [''The number of queens must be greater than 0.\<newline>'',
                     ''Failed to allocate memory for chess board.\<newline>''],
           exit_status = EXIT_FAILURE\<rparr>"
  by (simp add: main_def initialize_board_def allocation_error_def atoi_0)

text \<open>
  Claim C4, as the program has it.  For the size 4, given as the argument or by default,
  a run in which every allocation succeeds ends with the placement counter at 16 and the
  solution counter at 2, and prints the one line
  \<^verbatim>\<open>The 4-Queens problem required 16 queen placements to find all 2 solutions\<close>.
\<close>

theorem four_queens_run:
  assumes "all_allocated heap"
  shows "solve heap 4 = Inr (Some (16, 2)) \<and>
         main heap [prog, ''4''] =
           Some \<lparr>stdout = [''The 4-Queens problem required 16 queen placements to find all 2 solutions\<newline>''],
                 stderr = [], exit_status = EXIT_SUCCESS\<rparr> \<and>
         main heap [prog] = main heap [prog, ''4'']"
  using assms main_size_four [of heap "[prog, ''4'']"] main_size_four [of heap "[prog]"]
  by (simp add: solve_built search_counts_4 atoi_4)

theorem four_queens_run_witness:
  "all_allocated junk_heap \<and>
   solve junk_heap 4 = Inr (Some (16, 2)) \<and>
   main junk_heap [''n_queens_counter'', ''4''] =
     Some \<lparr>stdout = [''The 4-Queens problem required 16 queen placements to find all 2 solutions\<newline>''],
           stderr = [], exit_status = EXIT_SUCCESS\<rparr> \<and>
   main junk_heap [''n_queens_counter''] = main junk_heap [''n_queens_counter'', ''4'']"
  using four_queens_run [OF junk_heap_allocated, of "''n_queens_counter''"]
    junk_heap_allocated
  by simp

text \<open>
  Claim C4, as it is written, with 38 placements: the run of \<^verbatim>\<open>n_queens_counter 4\<close>
  does not end with the counters 38 and 2, and the line it prints is not the line with
  38 in it.
\<close>

theorem four_queens_not_38_placements:
  "solve zero_heap 4 \<noteq> Inr (Some (38, 2)) \<and>
   stdout (the (main zero_heap [''n_queens_counter'', ''4''])) \<noteq>
     [''The 4-Queens problem required 38 queen placements to find all 2 solutions\<newline>'']"
  using main_size_four [of zero_heap "[''n_queens_counter'', ''4'']"] zero_heap_allocated
  by (simp add: solve_built search_counts_4 atoi_4)

text \<open>
  Claim C5.  On a valid board, for a row of the board that \<^verbatim>\<open>square_is_free\<close> reports
  free, \<^verbatim>\<open>set_queen\<close> and then \<^verbatim>\<open>remove_queen\<close> for that row both stay in their
  arrays and give back the board as it was, but for the entry of \<^verbatim>\<open>queens\<close> at the
  current column and the placement counter, which is one higher.  \<^verbatim>\<open>remove_queen\<close>
  takes the column back by one and frees the diagonal cells at the indices computed from
  the column so decremented.
\<close>

theorem remove_queen_inverts_set_queen:
  assumes "valid_board b" and "0 \<le> row_i" and "row_i < n_size b"
    and "square_is_free b row_i = Some v" and "v \<noteq> 0"
  shows "\<exists>b1 b2. set_queen b row_i = Some b1 \<and> remove_queen b1 row_i = Some b2 \<and>
           b2 = b\<lparr>queens := (queens b)[nat (col_j b) := row_i],
                  placements := placements b + 1\<rparr> \<and>
           col_j b2 = col_j b1 - 1 \<and>
           diagonal_down b2 = (diagonal_down b1)[nat (col_j b2 + row_i) := 1] \<and>
           diagonal_up b2 =
             (diagonal_up b1)[nat ((n_size b1 - 1) + (col_j b2 - row_i)) := 1] \<and>
           column b2 = (column b1)[nat row_i := 1]"
proof -
  note v = assms(1-3)
  from assms(4,5) have "(column b ! nat row_i AND
        diagonal_up b ! nat ((n_size b - 1) + (col_j b - row_i)))
        AND diagonal_down b ! nat (col_j b + row_i) \<noteq> 0"
    by (simp add: square_is_free_valid [OF v])
  then have cells: "column b ! nat row_i = 1"
    "diagonal_up b ! nat ((n_size b - 1) + (col_j b - row_i)) = 1"
    "diagonal_down b ! nat (col_j b + row_i) = 1"
    using and_free_iff [OF valid_board_cells [OF v]] by simp_all
  define b1 where "b1 = b\<lparr>queens := (queens b)[nat (col_j b) := row_i],
             column := (column b)[nat row_i := 0],
             diagonal_up := (diagonal_up b)[nat ((n_size b - 1) + (col_j b - row_i)) := 0],
             diagonal_down := (diagonal_down b)[nat (col_j b + row_i) := 0],
             col_j := col_j b + 1, placements := placements b + 1\<rparr>"
  have s1: "set_queen b row_i = Some b1"
    unfolding b1_def by (rule set_queen_valid [OF v])
  have "restored b1 b1" by (simp add: restored_def)
  from remove_queen_restores [OF v cells s1 this]
  have s2: "remove_queen b1 row_i = Some (b1\<lparr>col_j := col_j b,
      diagonal_down := diagonal_down b, diagonal_up := diagonal_up b, column := column b\<rparr>)" .
  have same: "xs[i := 1] = xs" if "xs ! i = (1::int)" for xs i
    using that by (metis list_update_id)
  show ?thesis
    using s1 s2 cells by (simp add: b1_def same)
qed

theorem remove_queen_inverts_set_queen_witness:
  "valid_board (empty_board 3) \<and> (0::int) \<le> 1 \<and> 1 < n_size (empty_board 3) \<and>
   square_is_free (empty_board 3) 1 = Some 1 \<and> (1::int) \<noteq> 0 \<and>
   (\<exists>b1 b2. set_queen (empty_board 3) 1 = Some b1 \<and> remove_queen b1 1 = Some b2 \<and>
      b2 = (empty_board 3)\<lparr>queens := [1, 0, 0], placements := 1\<rparr>)"
proof -
  have v: "valid_board (empty_board 3)"
    by (simp add: valid_board_def empty_board_def)
  have n: "1 < n_size (empty_board 3)"
    by (simp add: empty_board_def)
  have f: "square_is_free (empty_board 3) 1 = Some 1"
    by (simp add: square_is_free_def array_get_def empty_board_def numeral_eq_Suc)
  have q: "(queens (empty_board 3))[nat (col_j (empty_board 3)) := 1] = [1, 0, 0]"
    "placements (empty_board 3) + 1 = 1"
    by (simp_all add: empty_board_def numeral_eq_Suc)
  from remove_queen_inverts_set_queen [OF v _ n f] v n f q show ?thesis by auto
qed

text \<open>
  Claim C6.  \<^verbatim>\<open>square_is_free\<close> takes the board and gives a number only, so the
  model has no board that it could change.  On a valid board and for a row of the board,
  its three reads lie in their arrays, at the row, at \<open>(n_size - 1) + (col_j - row)\<close>
  and at \<open>col_j + row\<close>, and its result is other than 0 exactly when the three cells
  are free (1).
\<close>

theorem square_is_free_iff:
  assumes "valid_board b" and "0 \<le> row_i" and "row_i < n_size b"
  shows "\<exists>v. square_is_free b row_i = Some v \<and>
           nat row_i < length (column b) \<and>
           nat ((n_size b - 1) + (col_j b - row_i)) < length (diagonal_up b) \<and>
           nat (col_j b + row_i) < length (diagonal_down b) \<and>
           (v \<noteq> 0 \<longleftrightarrow>
              column b ! nat row_i = 1 \<and>
              diagonal_up b ! nat ((n_size b - 1) + (col_j b - row_i)) = 1 \<and>
              diagonal_down b ! nat (col_j b + row_i) = 1)"
proof -
  note r = valid_board_in_range [OF assms]
  have "nat row_i < length (column b)"
    "nat ((n_size b - 1) + (col_j b - row_i)) < length (diagonal_up b)"
    "nat (col_j b + row_i) < length (diagonal_down b)"
    using r assms(2) by simp_all
  then show ?thesis
    using square_is_free_valid [OF assms] and_free_iff [OF valid_board_cells [OF assms]]
    by simp
qed

theorem square_is_free_iff_witness:
  "valid_board (empty_board 3) \<and> (0::int) \<le> 1 \<and> 1 < n_size (empty_board 3) \<and>
   (\<exists>v. square_is_free (empty_board 3) 1 = Some v \<and>
      (v \<noteq> 0 \<longleftrightarrow>
         column (empty_board 3) ! nat 1 = 1 \<and>
         diagonal_up (empty_board 3) !
           nat ((n_size (empty_board 3) - 1) + (col_j (empty_board 3) - 1)) = 1 \<and>
         diagonal_down (empty_board 3) ! nat (col_j (empty_board 3) + 1) = 1))"
proof -
  have v: "valid_board (empty_board 3)"
    by (simp add: valid_board_def empty_board_def)
  have n: "1 < n_size (empty_board 3)"
    by (simp add: empty_board_def)
  from square_is_free_iff [OF v _ n] v n show ?thesis by auto
qed

text \<open>
  Claim C7.  On a valid board the search returns a board: no read or write of the
  search, of \<^verbatim>\<open>square_is_free\<close>, \<^verbatim>\<open>set_queen\<close> or \<^verbatim>\<open>remove_queen\<close>, at any depth,
  leaves its array.  The board that \<^verbatim>\<open>initialize_board\<close> builds is valid
  (\<open>initialize_board_Some\<close>, \<open>empty_board_valid\<close>).
\<close>

theorem search_stays_in_bounds:
  assumes "valid_board b"
  shows "\<exists>b'. place_next_queen b = Some b'"
  using place_next_queen_restores(1) [OF assms] by blast

theorem search_stays_in_bounds_witness:
  "valid_board (empty_board 2) \<and> (\<exists>b'. place_next_queen (empty_board 2) = Some b')"
proof -
  have v: "valid_board (empty_board 2)"
    by (simp add: valid_board_def empty_board_def)
  with search_stays_in_bounds [of "empty_board 2"] show ?thesis by simp
qed

text \<open>
  Claim C9.  For every size of at least 1, two runs in which every allocation succeeds
  end with the same pair of counters, whatever the fresh memory of each run holds.
\<close>

theorem solve_deterministic:
  assumes "1 \<le> n" and "all_allocated heap1" and "all_allocated heap2"
  shows "\<exists>c. solve heap1 n = Inr (Some c) \<and> solve heap2 n = Inr (Some c)"
  using search_counts_Some [OF assms(1)] assms by (auto simp: solve_built)

theorem solve_deterministic_witness:
  "(1::int) \<le> 2 \<and> all_allocated zero_heap \<and> all_allocated junk_heap \<and>
   (\<exists>c. solve zero_heap 2 = Inr (Some c) \<and> solve junk_heap 2 = Inr (Some c))"
  using solve_deterministic [of 2 zero_heap junk_heap] zero_heap_allocated junk_heap_allocated
  by simp

text \<open>
  Claim C10.  With one argument that \<^verbatim>\<open>atoi\<close> reads as an \<^verbatim>\<open>int\<close> below 1, which
  is 0 for text that is no number, the run ends in \<^verbatim>\<open>initialize_board\<close>: the lines of
  \<^verbatim>\<open>allocation_error(0)\<close> are on the error stream, nothing is on the standard
  output, and the exit status is \<^verbatim>\<open>EXIT_FAILURE\<close>, which is not 0.  The hypothesis
  is on the \<^verbatim>\<open>int\<close> that \<^verbatim>\<open>atoi\<close> returns (\<open>atoi_range\<close>), not on the number
  that the text spells: \<open>main_cut_argument\<close> is a run whose text spells a number
  below 1 and which is not rejected.
\<close>

theorem main_rejects_size_below_one:
  assumes "atoi arg < 1"
  shows "main heap [prog, arg] =
           Some \<lparr>stdout = [], stderr = allocation_error 0, exit_status = EXIT_FAILURE\<rparr> \<and>
         EXIT_FAILURE \<noteq> 0"
  using assms by (simp add: main_def initialize_board_def EXIT_FAILURE_def)

theorem main_rejects_size_below_one_witness:
  "atoi ''abc'' < 1 \<and>
   main zero_heap [''n_queens_counter'', ''abc''] =
     Some \<lparr>stdout = [], stderr = allocation_error 0, exit_status = EXIT_FAILURE\<rparr> \<and>
   EXIT_FAILURE \<noteq> 0"
  using main_rejects_size_below_one [of "''abc''" zero_heap "''n_queens_counter''"]
  by (simp add: atoi_abc)

end
